theory Spec2Isabelle
  imports Main "HOL-Library.AList" "HOL-Library.Sublist"
begin

section \<open>pubsubc: provisioning of Pub/Sub topics and subscriptions from the environment\<close>

text \<open>
  A shallow embedding of \<^verbatim>\<open>main.go\<close>. Go strings are byte strings (\<open>string\<close>, a
  \<open>char list\<close>). Everything outside the repository is a field of the record \<open>platform\<close>:
  the parsed flags, \<^verbatim>\<open>os.Args[0]\<close>, the environment, \<^verbatim>\<open>fmt\<close>'s rendering of
  computed formats, the order in which Go ranges over a map, and the answers of the
  Pub/Sub service. What the program does to the outside is recorded in the record
  \<open>world\<close>: the requests sent to the service and the text written to the two streams.
  The model assumes that \<^verbatim>\<open>flag.Parse\<close> has accepted the command line, that \<^verbatim>\<open>int\<close> has
  64 bits, and that an iterator of the service yields finitely many results.
\<close>

subsection \<open>Package strings\<close>

text \<open>\<^verbatim>\<open>strings.Split(s, sep)\<close> for a separator of one byte: the pieces of \<open>s\<close> between
  the separators, in order; a string without separator (also the empty one) is its own
  single piece.\<close>

fun Split :: "string \<Rightarrow> char \<Rightarrow> string list" where
  "Split [] sep = [[]]"
| "Split (c # s) sep =
     (if c = sep then [] # Split s sep
      else (case Split s sep of [] \<Rightarrow> [[c]] | a # as \<Rightarrow> (c # a) # as))"

text \<open>\<^verbatim>\<open>strings.Replace(s, old, new, n)\<close> for \<open>old\<close> of one byte and \<open>n \<ge> 0\<close>: the first
  \<open>n\<close> occurrences of \<open>old\<close> are replaced.\<close>

fun Replace :: "string \<Rightarrow> char \<Rightarrow> string \<Rightarrow> nat \<Rightarrow> string" where
  "Replace s old new 0 = s"
| "Replace [] old new (Suc n) = []"
| "Replace (c # s) old new (Suc n) =
     (if c = old then new @ Replace s old new n else c # Replace s old new (Suc n))"

text \<open>\<^verbatim>\<open>strings.TrimSpace\<close> removes the white-space runes (\<^verbatim>\<open>unicode.IsSpace\<close>) at both
  ends. In UTF-8 these are the six ASCII bytes, U+0085 and U+00A0 (two bytes), and
  U+1680, U+2000 to U+200A, U+2028, U+2029, U+202F, U+205F and U+3000 (three bytes).
  A byte sequence that is no such encoding stops the trimming.\<close>

definition isSpace1 :: "char \<Rightarrow> bool" where
  "isSpace1 a = (a = CHR 0x09 \<or> a = CHR 0x0A \<or> a = CHR 0x0B \<or> a = CHR 0x0C \<or> a = CHR 0x0D
                 \<or> a = CHR 0x20)"

definition isSpace2 :: "char \<Rightarrow> char \<Rightarrow> bool" where
  "isSpace2 a b = (a = CHR 0xC2 \<and> (b = CHR 0x85 \<or> b = CHR 0xA0))"

definition isSpace3 :: "char \<Rightarrow> char \<Rightarrow> char \<Rightarrow> bool" where
  "isSpace3 a b c =
     ((a = CHR 0xE1 \<and> b = CHR 0x9A \<and> c = CHR 0x80)
      \<or> (a = CHR 0xE2 \<and> b = CHR 0x80 \<and>
           ((0x80 \<le> (of_char c :: nat) \<and> (of_char c :: nat) \<le> 0x8A)
            \<or> c = CHR 0xA8 \<or> c = CHR 0xA9 \<or> c = CHR 0xAF))
      \<or> (a = CHR 0xE2 \<and> b = CHR 0x81 \<and> c = CHR 0x9F)
      \<or> (a = CHR 0xE3 \<and> b = CHR 0x80 \<and> c = CHR 0x80))"

fun TrimLeftSpace :: "string \<Rightarrow> string" where
  "TrimLeftSpace (a # b # c # s) =
     (if isSpace1 a then TrimLeftSpace (b # c # s)
      else if isSpace2 a b then TrimLeftSpace (c # s)
      else if isSpace3 a b c then TrimLeftSpace s
      else a # b # c # s)"
| "TrimLeftSpace [a, b] =
     (if isSpace1 a then TrimLeftSpace [b] else if isSpace2 a b then [] else [a, b])"
| "TrimLeftSpace [a] = (if isSpace1 a then [] else [a])"
| "TrimLeftSpace [] = []"

text \<open>The same from the end, on the reversed string: \<open>c\<close> is the last byte.\<close>

fun TrimRightSpaceRev :: "string \<Rightarrow> string" where
  "TrimRightSpaceRev (c # b # a # s) =
     (if isSpace1 c then TrimRightSpaceRev (b # a # s)
      else if isSpace2 b c then TrimRightSpaceRev (a # s)
      else if isSpace3 a b c then TrimRightSpaceRev s
      else c # b # a # s)"
| "TrimRightSpaceRev [c, b] =
     (if isSpace1 c then TrimRightSpaceRev [b] else if isSpace2 b c then [] else [c, b])"
| "TrimRightSpaceRev [c] = (if isSpace1 c then [] else [c])"
| "TrimRightSpaceRev [] = []"

definition TrimRightSpace :: "string \<Rightarrow> string" where
  "TrimRightSpace s = rev (TrimRightSpaceRev (rev s))"

definition TrimSpace :: "string \<Rightarrow> string" where
  "TrimSpace s = TrimRightSpace (TrimLeftSpace s)"

subsection \<open>Data\<close>

text \<open>\<^verbatim>\<open>type Topics map[string][]string\<close>. A Go map holds one value per key; the model is
  an association list with distinct keys, written with \<open>AList.update\<close> and read with
  \<open>map_of\<close>.\<close>

type_synonym Topics = "(string \<times> string list) list"

text \<open>\<^verbatim>\<open>pubsub.PushConfig\<close> and \<^verbatim>\<open>pubsub.SubscriptionConfig\<close>, with the fields the program
  sets. A topic handle is its id. The zero \<open>PushConfig\<close> (a pull subscription) has the
  empty endpoint.\<close>

record PushConfig =
  Endpoint :: string

record SubscriptionConfig =
  Topic :: string
  PushConfig :: PushConfig

text \<open>The requests the program sends to the service, each with the project of the client
  that sends it.\<close>

datatype call =
    NewClient string
  | Close string
  | CreateTopic string string
  | CreateSubscription string string SubscriptionConfig
  | ListTopics string
  | ListSubscriptions string string
  | GetConfig string string

record world =
  calls :: "call list"
  stdout :: "string list"
  stderr :: "string list"

definition issue :: "call \<Rightarrow> world \<Rightarrow> world" where
  "issue c w = w\<lparr>calls := calls w @ [c]\<rparr>"

text \<open>A function either returns to its caller or ends the process (\<^verbatim>\<open>os.Exit\<close>, which
  runs no deferred call).\<close>

datatype 'a run = Returns 'a world | Exits nat world

text \<open>A Go \<^verbatim>\<open>error\<close> is the string of its \<^verbatim>\<open>Error()\<close>; \<open>None\<close> is \<^verbatim>\<open>nil\<close>. The service
  answers a request knowing the requests sent before it (\<open>call list\<close>, oldest first).
  An iterator is the finite list of the results of its \<^verbatim>\<open>Next()\<close> before
  \<^verbatim>\<open>iterator.Done\<close>: \<open>Inl\<close> an error, \<open>Inr\<close> the id of the next item.\<close>

record platform =
  Args0 :: string
  debug :: bool
  help_flag :: bool
  version :: bool
  Revision :: string
  CommitHash :: string
  runtimeVersion :: string
  flagDefaults :: string
  environ :: "string \<rightharpoonup> string"
  Sprintf :: "string \<Rightarrow> string list \<Rightarrow> string"
  mapRank :: "Topics \<Rightarrow> string \<Rightarrow> nat"
  newClient :: "call list \<Rightarrow> string \<Rightarrow> string option"
  createTopic :: "call list \<Rightarrow> string \<Rightarrow> string \<Rightarrow> string option"
  createSubscription :: "call list \<Rightarrow> string \<Rightarrow> string \<Rightarrow> SubscriptionConfig \<Rightarrow> string option"
  topicsIter :: "call list \<Rightarrow> string \<Rightarrow> (string + string) list"
  subscriptionsIter :: "call list \<Rightarrow> string \<Rightarrow> string \<Rightarrow> (string + string) list"
  subscriptionConfig :: "call list \<Rightarrow> string \<Rightarrow> string \<Rightarrow> string + SubscriptionConfig"

text \<open>\<^verbatim>\<open>os.Getenv\<close>: the value of the variable, empty when it is not set.\<close>

definition Getenv :: "platform \<Rightarrow> string \<Rightarrow> string" where
  "Getenv P key = (case environ P key of None \<Rightarrow> [] | Some v \<Rightarrow> v)"

text \<open>Go leaves the order in which \<^verbatim>\<open>range\<close> visits a map open. The platform decides it
  through \<open>mapRank\<close>, which may depend on the map: the entries are visited by increasing
  rank of their keys.\<close>

definition rangeTopics :: "platform \<Rightarrow> Topics \<Rightarrow> Topics" where
  "rangeTopics P topics = sort_key (\<lambda>e. mapRank P topics (fst e)) topics"

subsection \<open>Formatting\<close>

text \<open>A literal format whose verbs are \<^verbatim>\<open>%s\<close> on strings and \<^verbatim>\<open>%d\<close> on an int is written
  out. A format that is computed (\<^verbatim>\<open>debugf\<close> and \<^verbatim>\<open>fatalf\<close> extend the format they
  receive, \<^verbatim>\<open>main\<close> passes an error text as format) or that uses \<^verbatim>\<open>%q\<close> or \<^verbatim>\<open>%w\<close> is
  rendered by the platform's \<open>Sprintf\<close>.\<close>

definition newline :: string where
  "newline = [CHR 0x0A]"

function digits :: "nat \<Rightarrow> string" where
  "digits n = (if n < 10 then [''0123456789'' ! n]
               else digits (n div 10) @ [''0123456789'' ! (n mod 10)])"
  by pat_completeness auto
termination
  by (relation "measure id") auto

declare digits.simps [simp del]

text \<open>\<^verbatim>\<open>%d\<close> of an \<^verbatim>\<open>int\<close>.\<close>

definition itoa :: "int \<Rightarrow> string" where
  "itoa i = (if i < 0 then CHR ''-'' # digits (nat (- i)) else digits (nat i))"

definition versionString :: "platform \<Rightarrow> string" where
  "versionString P =
     ''pubsubc - build '' @ Revision P @ '' ('' @ CommitHash P @ '') running on ''
       @ runtimeVersion P"

definition debugf :: "platform \<Rightarrow> string \<Rightarrow> string list \<Rightarrow> world \<Rightarrow> world" where
  "debugf P format params w =
     (if debug P then w\<lparr>stdout := stdout w @ [Sprintf P (format @ newline) params]\<rparr> else w)"

definition fatalf :: "platform \<Rightarrow> string \<Rightarrow> string list \<Rightarrow> world \<Rightarrow> 'a run" where
  "fatalf P format params w =
     Exits 1 (w\<lparr>stderr := stderr w @ [Sprintf P (Args0 P @ '': '' @ format @ newline) params]\<rparr>)"

subsection \<open>The result reporter\<close>

text \<open>The loop of \<^verbatim>\<open>listTopics\<close> and of \<^verbatim>\<open>listSubscriptions\<close> over the iterator.\<close>

fun drain :: "platform \<Rightarrow> (string + string) list \<Rightarrow> string list \<Rightarrow> string + string list" where
  "drain P [] acc = Inr acc"
| "drain P (Inl err # it) acc = Inl (Sprintf P ''Next: %w'' [err])"
| "drain P (Inr x # it) acc = drain P it (acc @ [x])"

definition listSubscriptions ::
  "platform \<Rightarrow> string \<Rightarrow> string \<Rightarrow> world \<Rightarrow> (string + string list) \<times> world" where
  "listSubscriptions P project topicID w =
     (drain P (subscriptionsIter P (calls w) project topicID) [],
      issue (ListSubscriptions project topicID) w)"

definition listTopics :: "platform \<Rightarrow> string \<Rightarrow> world \<Rightarrow> (string + string list) \<times> world" where
  "listTopics P project w =
     (drain P (topicsIter P (calls w) project) [], issue (ListTopics project) w)"

text \<open>Lines 70 to 76: the inner loop over the subscriptions of the topic.\<close>

fun printSubscriptions :: "platform \<Rightarrow> string \<Rightarrow> string list \<Rightarrow> world \<Rightarrow> unit run" where
  "printSubscriptions P project [] w = Returns () w"
| "printSubscriptions P project (sub # rest) w =
     (case subscriptionConfig P (calls w) project sub of
        Inl err \<Rightarrow>
          fatalf P ''Failed to get subscription config %s'' [err] (issue (GetConfig project sub) w)
      | Inr config \<Rightarrow>
          printSubscriptions P project rest
            ((issue (GetConfig project sub) w)
               \<lparr>stdout := stdout w @
                  [''  Subscription: '' @ sub @ '' - Endpoint: '' @ Endpoint (PushConfig config)
                     @ newline]\<rparr>))"

text \<open>Lines 69 to 79: the outer loop over the same list \<open>subscriptions\<close>.\<close>

fun eachSubscription ::
  "platform \<Rightarrow> string \<Rightarrow> string list \<Rightarrow> string list \<Rightarrow> world \<Rightarrow> unit run" where
  "eachSubscription P project subscriptions [] w = Returns () w"
| "eachSubscription P project subscriptions (sub # rest) w =
     (case printSubscriptions P project subscriptions w of
        Exits c w1 \<Rightarrow> Exits c w1
      | Returns u w1 \<Rightarrow>
          eachSubscription P project subscriptions rest
            (debugf P (''  Subscription: %s'' @ newline) [sub] w1))"

text \<open>Lines 61 to 80: the loop over the topics.\<close>

fun eachTopic :: "platform \<Rightarrow> string \<Rightarrow> string list \<Rightarrow> world \<Rightarrow> unit run" where
  "eachTopic P project [] w = Returns () w"
| "eachTopic P project (topic # rest) w =
     (case listSubscriptions P project topic w of
        (Inl err, w1) \<Rightarrow> fatalf P ''Failed to list subscriptions: %s'' [err] w1
      | (Inr subscriptions, w1) \<Rightarrow>
          (case eachSubscription P project subscriptions subscriptions
                  (debugf P (''Topic: %s'' @ newline) [topic] w1) of
             Exits c w2 \<Rightarrow> Exits c w2
           | Returns u w2 \<Rightarrow> eachTopic P project rest w2))"

definition displayResult :: "platform \<Rightarrow> string \<Rightarrow> world \<Rightarrow> unit run" where
  "displayResult P projectId w =
     (case newClient P (calls w) projectId of
        Some err \<Rightarrow> Returns () (issue (NewClient projectId) w)
      | None \<Rightarrow>
          (case listTopics P projectId (issue (NewClient projectId) w) of
             (Inl err, w1) \<Rightarrow> fatalf P ''Failed to list topics: %s'' [err] w1
           | (Inr topics, w1) \<Rightarrow>
               (case eachTopic P projectId topics w1 of
                  Exits c w2 \<Rightarrow> Exits c w2
                | Returns u w2 \<Rightarrow> Returns () (issue (Close projectId) w2))))"

subsection \<open>The provisioner\<close>

text \<open>Lines 137 to 144: a subscription token is decoded into its id and push endpoint.\<close>

record subscriptionSpec =
  subscriptionID :: string
  pushEndpoint :: string

definition decodeSubscription :: "string \<Rightarrow> subscriptionSpec" where
  "decodeSubscription subscription =
     (let subscriptionParts = Split subscription (CHR ''+'') in
      \<lparr>subscriptionID = TrimSpace (hd subscriptionParts),
       pushEndpoint =
         (if length subscriptionParts > 1
          then Replace (TrimSpace (subscriptionParts ! 1)) (CHR ''|'') '':'' 1
          else [])\<rparr>)"

text \<open>Lines 136 to 164: the loop over the subscriptions of one topic.\<close>

fun createSubscriptions ::
  "platform \<Rightarrow> string \<Rightarrow> string \<Rightarrow> string list \<Rightarrow> world \<Rightarrow> string option \<times> world" where
  "createSubscriptions P projectID topicID [] w = (None, w)"
| "createSubscriptions P projectID topicID (subscription # rest) w =
     (let d = decodeSubscription subscription in
      if pushEndpoint d \<noteq> [] then
        (let endPointURL = ''http://'' @ pushEndpoint d;
             w1 = debugf P ''    Creating subscription %q - endpoint %q''
                    [subscriptionID d, endPointURL] w;
             config = \<lparr>Topic = topicID, PushConfig = \<lparr>Endpoint = endPointURL\<rparr>\<rparr>;
             w2 = issue (CreateSubscription projectID (subscriptionID d) config) w1
         in case createSubscription P (calls w1) projectID (subscriptionID d) config of
              Some err \<Rightarrow>
                (Some (Sprintf P
                   ''Unable to create push subscription %q on topic %q for project %q using push endpoint %q: %s''
                   [subscriptionID d, topicID, projectID, pushEndpoint d, err]), w2)
            | None \<Rightarrow> createSubscriptions P projectID topicID rest w2)
      else
        (let w1 = debugf P ''    Creating subscription %q'' [subscriptionID d] w;
             config = \<lparr>Topic = topicID, PushConfig = \<lparr>Endpoint = []\<rparr>\<rparr>;
             w2 = issue (CreateSubscription projectID (subscriptionID d) config) w1
         in case createSubscription P (calls w1) projectID (subscriptionID d) config of
              Some err \<Rightarrow>
                (Some (Sprintf P
                   ''Unable to create subscription %q on topic %q for project %q: %s''
                   [subscriptionID d, topicID, projectID, err]), w2)
            | None \<Rightarrow> createSubscriptions P projectID topicID rest w2))"

text \<open>Lines 129 to 165: the loop over the entries of the map, in the order of the range.\<close>

fun createTopics :: "platform \<Rightarrow> string \<Rightarrow> Topics \<Rightarrow> world \<Rightarrow> string option \<times> world" where
  "createTopics P projectID [] w = (None, w)"
| "createTopics P projectID ((topicID, subscriptions) # rest) w =
     (let w1 = debugf P ''  Creating topic %q'' [topicID] w;
          w2 = issue (CreateTopic projectID topicID) w1
      in case createTopic P (calls w1) projectID topicID of
           Some err \<Rightarrow>
             (Some (Sprintf P ''Unable to create topic %q for project %q: %s''
                      [topicID, projectID, err]), w2)
         | None \<Rightarrow>
             (case createSubscriptions P projectID topicID subscriptions w2 of
                (Some e, w3) \<Rightarrow> (Some e, w3)
              | (None, w3) \<Rightarrow> createTopics P projectID rest w3))"

text \<open>\<^verbatim>\<open>create\<close>: the deferred \<^verbatim>\<open>client.Close()\<close> runs when the function returns after the
  client was made.\<close>

definition create :: "platform \<Rightarrow> string \<Rightarrow> Topics \<Rightarrow> world \<Rightarrow> string option \<times> world" where
  "create P projectID topics w =
     (case newClient P (calls w) projectID of
        Some err \<Rightarrow>
          (Some (Sprintf P ''Unable to create client to project %q: %s'' [projectID, err]),
           issue (NewClient projectID) w)
      | None \<Rightarrow>
          (let w1 = debugf P ''Client connected with project ID %q'' [projectID]
                      (issue (NewClient projectID) w)
           in case createTopics P projectID (rangeTopics P topics) w1 of
                (r, w2) \<Rightarrow> (r, issue (Close projectID) w2)))"

subsection \<open>The configuration parser and the main loop\<close>

text \<open>Lines 209 to 213: the topic definitions fill the map; an assignment to a key that
  is present replaces its value.\<close>

fun topicsLoop :: "string list \<Rightarrow> Topics \<Rightarrow> Topics" where
  "topicsLoop [] topics = topics"
| "topicsLoop (part # rest) topics =
     (let topicParts = Split part (CHR '':'') in
      topicsLoop rest (AList.update (hd topicParts) (tl topicParts) topics))"

text \<open>Lines 203 to 213: \<open>None\<close> is the branch that calls \<^verbatim>\<open>fatalf\<close>.\<close>

definition parseConfig :: "string \<Rightarrow> (string \<times> Topics) option" where
  "parseConfig env =
     (let parts = Split env (CHR '','') in
      if length parts < 2 then None else Some (hd parts, topicsLoop (tl parts) []))"

text \<open>\<^verbatim>\<open>flag.Usage\<close> as \<^verbatim>\<open>main\<close> sets it: the usage line on standard output, the flag
  defaults on standard error.\<close>

definition Usage :: "platform \<Rightarrow> world \<Rightarrow> world" where
  "Usage P w =
     w\<lparr>stdout := stdout w @
          [''Usage: env PUBSUB_PROJECT1='' @ [CHR 0x22]
             @ ''project1,topic1,topic2:subscription1,topic3:subscription2+enpoint1''
             @ [CHR 0x22] @ '' '' @ Args0 P @ newline],
       stderr := stderr w @ [flagDefaults P]\<rparr>"

definition currentEnv :: "int \<Rightarrow> string" where
  "currentEnv i = ''PUBSUB_PROJECT'' @ itoa i"

text \<open>Lines 202 to 220: the body of the loop for a variable that is not empty.\<close>

definition project :: "platform \<Rightarrow> string \<Rightarrow> string \<Rightarrow> world \<Rightarrow> unit run" where
  "project P name env w =
     (case parseConfig env of
        None \<Rightarrow> fatalf P ''%s: Expected at least 1 topic to be defined'' [name] w
      | Some (projectID, topics) \<Rightarrow>
          (case create P projectID topics w of
             (Some err, w1) \<Rightarrow> fatalf P err [] w1
           | (None, w1) \<Rightarrow> displayResult P projectID w1))"

text \<open>\<^verbatim>\<open>i++\<close> on a 64-bit \<^verbatim>\<open>int\<close>.\<close>

definition nextIndex :: "int \<Rightarrow> int" where
  "nextIndex i = (if i = 9223372036854775807 then - 9223372036854775808 else i + 1)"

text \<open>The loop of \<^verbatim>\<open>main\<close>. The result is the exit status and the world at the end;
  \<open>None\<close> is a loop that never ends.\<close>

partial_function (option) mainLoop :: "platform \<Rightarrow> int \<Rightarrow> world \<Rightarrow> (nat \<times> world) option" where
  "mainLoop P i w =
     (let env = Getenv P (currentEnv i) in
      if env = [] then (if i = 1 then Some (1, Usage P w) else Some (0, w))
      else (case project P (currentEnv i) env w of
              Exits c w1 \<Rightarrow> Some (c, w1)
            | Returns u w1 \<Rightarrow> mainLoop P (nextIndex i) w1))"

definition start :: world where
  "start = \<lparr>calls = [], stdout = [], stderr = []\<rparr>"

definition main :: "platform \<Rightarrow> (nat \<times> world) option" where
  "main P =
     (if help_flag P then Some (0, Usage P start)
      else if version P then Some (0, start\<lparr>stdout := [versionString P @ newline]\<rparr>)
      else mainLoop P 1 start)"

section \<open>Vocabulary of the properties\<close>

subsection \<open>Requests that fail\<close>

text \<open>
  \<open>failed P h c\<close>: the service answers the request \<open>c\<close>, sent after the requests
  \<open>h\<close>, with an error. \<^verbatim>\<open>Close\<close> returns nothing the program reads.
\<close>

fun failed :: "platform \<Rightarrow> call list \<Rightarrow> call \<Rightarrow> bool" where
  "failed P h (NewClient p) = (newClient P h p \<noteq> None)"
| "failed P h (Close p) = False"
| "failed P h (CreateTopic p t) = (createTopic P h p t \<noteq> None)"
| "failed P h (CreateSubscription p s c) = (createSubscription P h p s c \<noteq> None)"
| "failed P h (ListTopics p) = isl (drain P (topicsIter P h p) [])"
| "failed P h (ListSubscriptions p t) = isl (drain P (subscriptionsIter P h p t) [])"
| "failed P h (GetConfig p s) = isl (subscriptionConfig P h p s)"

text \<open>
  No request of the list fails when they are sent one after the other, after \<open>h\<close>.
\<close>

fun noFailure :: "platform \<Rightarrow> call list \<Rightarrow> call list \<Rightarrow> bool" where
  "noFailure P h [] = True"
| "noFailure P h (c # cs) = (\<not> failed P h c \<and> noFailure P (h @ [c]) cs)"

text \<open>
  The requests of a list that are sent when the sender stops at the first one that
  fails.
\<close>

fun issued :: "platform \<Rightarrow> call list \<Rightarrow> call list \<Rightarrow> call list" where
  "issued P h [] = []"
| "issued P h (c # cs) = c # (if failed P h c then [] else issued P (h @ [c]) cs)"

text \<open>
  The requests the world \<open>w'\<close> holds beyond those of \<open>w\<close>.
\<close>

definition newCalls :: "world \<Rightarrow> world \<Rightarrow> call list" where
  "newCalls w w' = drop (length (calls w)) (calls w')"

subsection \<open>The requests of a configuration\<close>

text \<open>
  The request for one subscription token: a push subscription to \<^verbatim>\<open>http://\<close> followed
  by the decoded endpoint when that is not empty, a pull subscription (the zero
  \<open>PushConfig\<close>) otherwise.
\<close>

definition subscriptionCall :: "string \<Rightarrow> string \<Rightarrow> string \<Rightarrow> call" where
  "subscriptionCall projectID topicID token =
     CreateSubscription projectID (subscriptionID (decodeSubscription token))
       \<lparr>Topic = topicID,
        PushConfig = \<lparr>Endpoint =
          (if pushEndpoint (decodeSubscription token) \<noteq> []
           then ''http://'' @ pushEndpoint (decodeSubscription token) else [])\<rparr>\<rparr>"

text \<open>
  The creation requests of a list of map entries: each topic, followed by its
  subscriptions.
\<close>

definition plan :: "string \<Rightarrow> Topics \<Rightarrow> call list" where
  "plan projectID entries =
     concat (map (\<lambda>(topicID, subscriptions).
               CreateTopic projectID topicID # map (subscriptionCall projectID topicID) subscriptions)
             entries)"

fun isCreate :: "call \<Rightarrow> bool" where
  "isCreate (CreateTopic p t) = True"
| "isCreate (CreateSubscription p s c) = True"
| "isCreate c = False"

subsection \<open>Steps that go on and steps that end the process\<close>




subsection \<open>The projects in the order of their indices\<close>

text \<open>
  The loop body, applied to the variables of the given indices one after the other,
  until one ends the process.
\<close>

fun runProjects :: "platform \<Rightarrow> int list \<Rightarrow> world \<Rightarrow> unit run" where
  "runProjects P [] w = Returns () w"
| "runProjects P (i # rest) w =
     (case project P (currentEnv i) (Getenv P (currentEnv i)) w of
        Exits c w1 \<Rightarrow> Exits c w1
      | Returns u w1 \<Rightarrow> runProjects P rest w1)"

subsection \<open>Platforms for the examples\<close>

text \<open>
  A service in the manner of the Pub/Sub emulator: every client connects, a topic or a
  subscription that was requested before is refused, and the listings give back what
  was requested. \<open>Sprintf\<close> returns the format. The variant \<open>flaky\<close> refuses a client for
  a project that was connected to before; the variant \<open>unlisted\<close> answers the listing
  of the topics with an error.
\<close>

fun topicOf :: "string \<Rightarrow> call \<Rightarrow> string list" where
  "topicOf p (CreateTopic q t) = (if q = p then [t] else [])"
| "topicOf p c = []"

fun subscriptionOf :: "string \<Rightarrow> call \<Rightarrow> (string \<times> SubscriptionConfig) list" where
  "subscriptionOf p (CreateSubscription q s c) = (if q = p then [(s, c)] else [])"
| "subscriptionOf p c = []"

definition emulator :: "(string \<rightharpoonup> string) \<Rightarrow> platform" where
  "emulator env =
     \<lparr>Args0 = ''pubsubc'', debug = False, help_flag = False, version = False,
      Revision = ''dev'', CommitHash = ''none'', runtimeVersion = ''go'',
      flagDefaults = [], environ = env,
      Sprintf = (\<lambda>format params. format),
      mapRank = (\<lambda>topics key. 0),
      newClient = (\<lambda>h p. None),
      createTopic = (\<lambda>h p t.
        if t \<in> set (concat (map (topicOf p) h)) then Some ''AlreadyExists'' else None),
      createSubscription = (\<lambda>h p s c.
        if s \<in> set (map fst (concat (map (subscriptionOf p) h))) then Some ''AlreadyExists''
        else None),
      topicsIter = (\<lambda>h p. map Inr (remdups (concat (map (topicOf p) h)))),
      subscriptionsIter = (\<lambda>h p t.
        map Inr (remdups (map fst (filter (\<lambda>e. Topic (snd e) = t)
                                     (concat (map (subscriptionOf p) h)))))),
      subscriptionConfig = (\<lambda>h p s.
        case map_of (concat (map (subscriptionOf p) h)) s of
          None \<Rightarrow> Inl ''NotFound'' | Some c \<Rightarrow> Inr c)\<rparr>"

definition flaky :: "(string \<rightharpoonup> string) \<Rightarrow> platform" where
  "flaky env =
     (emulator env)\<lparr>newClient :=
        (\<lambda>h p. if NewClient p \<in> set h then Some ''Unavailable'' else None)\<rparr>"


section \<open>Properties\<close>

subsection \<open>Splitting and replacing\<close>

lemma Split_not_Nil: "Split s sep \<noteq> []"
  by (induction s) (auto split: list.splits)

lemma Split_no_sep: "sep \<notin> set s \<Longrightarrow> Split s sep = [s]"
  by (induction s) auto

lemma Split_append: "sep \<notin> set a \<Longrightarrow> Split (a @ sep # b) sep = a # Split b sep"
  by (induction a) auto

lemma Split_join:
  "sep \<notin> set p \<Longrightarrow> \<forall>d\<in>set ds. sep \<notin> set d \<Longrightarrow>
   Split (p @ concat (map ((#) sep) ds)) sep = p # ds"
proof (induction ds arbitrary: p)
  case Nil
  then show ?case by (simp add: Split_no_sep)
next
  case (Cons d ds)
  then show ?case by (simp add: Split_append)
qed

lemma length_Split: "length (Split s sep) = Suc (count_list s sep)"
  by (induction s) (auto split: list.splits simp: Split_not_Nil)

lemma Split_short: "length (Split s sep) < 2 \<longleftrightarrow> sep \<notin> set s"
  by (simp add: length_Split count_list_0_iff)

lemma Replace_none: "old \<notin> set s \<Longrightarrow> Replace s old new n = s"
  by (induction s old new n rule: Replace.induct) auto

lemma Replace_first: "old \<notin> set a \<Longrightarrow> Replace (a @ old # b) old new (Suc 0) = a @ new @ b"
  by (induction a) auto

subsection \<open>The configuration parser\<close>

lemma map_of_topicsLoop:
  "map_of (topicsLoop parts topics) =
   map_of topics ++
   map_of (rev (map (\<lambda>part. (hd (Split part (CHR '':'')), tl (Split part (CHR '':'')))) parts))"
proof (induction parts arbitrary: topics)
  case Nil
  then show ?case by simp
next
  case (Cons part parts)
  have "map_of (topicsLoop (part # parts) topics) =
        (map_of topics)(hd (Split part (CHR '':'')) \<mapsto> tl (Split part (CHR '':''))) ++
        map_of (rev (map (\<lambda>part. (hd (Split part (CHR '':'')), tl (Split part (CHR '':''))))
                      parts))"
    by (simp add: Cons.IH update_conv' Let_def del: fun_upd_apply)
  then show ?case by (simp del: fun_upd_apply)
qed

lemma distinct_topicsLoop:
  "distinct (map fst topics) \<Longrightarrow> distinct (map fst (topicsLoop parts topics))"
  by (induction parts arbitrary: topics) (auto simp: Let_def distinct_update)

lemma parseConfig_join:
  assumes "CHR '','' \<notin> set p" and "ds \<noteq> []" and "\<forall>d\<in>set ds. CHR '','' \<notin> set d"
  shows "parseConfig (p @ concat (map ((#) (CHR '','')) ds)) = Some (p, topicsLoop ds [])"
proof -
  have "Split (p @ concat (map ((#) (CHR '','')) ds)) (CHR '','') = p # ds"
    using assms(1,3) by (rule Split_join)
  then show ?thesis
    unfolding parseConfig_def Let_def using assms(2) by (cases ds) simp_all
qed

text \<open>An environment value is written from a project id \<open>p\<close> and a list \<open>defs\<close> of topic
  definitions, each a topic name with its subscription tokens: \<open>,\<close> before each
  definition and \<open>:\<close> before each token. The parser reads the project id and the
  definitions back; for a topic name that occurs twice the last definition stays.\<close>

lemma parseConfig_defs:
  assumes "CHR '','' \<notin> set p"
    and "defs \<noteq> []"
    and "\<forall>(t, subs)\<in>set defs. CHR '','' \<notin> set t \<and> CHR '':'' \<notin> set t \<and>
           (\<forall>s\<in>set subs. CHR '','' \<notin> set s \<and> CHR '':'' \<notin> set s)"
  shows "\<exists>topics.
           parseConfig
             (p @ concat (map (\<lambda>(t, subs). CHR '','' # t @ concat (map ((#) (CHR '':'')) subs))
                            defs))
             = Some (p, topics)
           \<and> map_of topics = map_of (rev defs) \<and> distinct (map fst topics)"
proof -
  let ?text = "\<lambda>(t, subs). t @ concat (map ((#) (CHR '':'')) subs)"
  let ?ds = "map ?text defs"
  have env: "concat (map (\<lambda>(t, subs). CHR '','' # t @ concat (map ((#) (CHR '':'')) subs)) defs)
               = concat (map ((#) (CHR '','')) ?ds)"
    by (induction defs) auto
  have nocomma: "\<forall>d\<in>set ?ds. CHR '','' \<notin> set d"
    using assms(3) by (auto simp: case_prod_beta)
  have parts: "map (\<lambda>part. (hd (Split part (CHR '':'')), tl (Split part (CHR '':'')))) ?ds = defs"
    using assms(3)
  proof (induction defs)
    case Nil
    then show ?case by simp
  next
    case (Cons d defs)
    obtain t subs where d: "d = (t, subs)" by (cases d)
    from Cons.prems d have "Split (t @ concat (map ((#) (CHR '':'')) subs)) (CHR '':'') = t # subs"
      by (intro Split_join) auto
    with Cons d show ?case by simp
  qed
  have "parseConfig (p @ concat (map ((#) (CHR '','')) ?ds)) = Some (p, topicsLoop ?ds [])"
    using assms(1,2) nocomma by (intro parseConfig_join) auto
  moreover have "map_of (topicsLoop ?ds []) = map_of (rev defs)"
    by (simp only: map_of_topicsLoop parts) simp
  moreover have "distinct (map fst (topicsLoop ?ds []))"
    by (rule distinct_topicsLoop) simp
  ultimately show ?thesis
    unfolding env by blast
qed

text \<open>
  Claim C1. For a project id \<open>p\<close> without \<open>,\<close> and topic definitions \<open>defs\<close> whose names
  and tokens hold neither \<open>,\<close> nor \<open>:\<close>, the parser splits the value on \<open>,\<close>, takes the
  first element as the project id, and splits each other element on \<open>:\<close> into the topic
  name and the list of its subscription tokens. So \<open>p,t1:s1,t2\<close> gives the project id
  \<open>p\<close> and the mapping \<open>{t1: [s1], t2: []}\<close>: a topic without \<open>:\<close> has the empty list.
  (The mapping is written by updates in the order of the definitions, so for \<open>t1 = t2\<close>
  it is \<open>{t2: []}\<close>.)
\<close>

theorem config_parser:
  "(CHR '','' \<notin> set p \<and> defs \<noteq> [] \<and>
    (\<forall>(t, subs)\<in>set defs. CHR '','' \<notin> set t \<and> CHR '':'' \<notin> set t \<and>
        (\<forall>s\<in>set subs. CHR '','' \<notin> set s \<and> CHR '':'' \<notin> set s))
    \<longrightarrow> (\<exists>topics.
           parseConfig
             (p @ concat (map (\<lambda>(t, subs). CHR '','' # t @ concat (map ((#) (CHR '':'')) subs))
                            defs))
             = Some (p, topics)
           \<and> map_of topics = map_of (rev defs) \<and> distinct (map fst topics)))
   \<and> (CHR '','' \<notin> set (p @ t1 @ s1 @ t2) \<and> CHR '':'' \<notin> set (t1 @ s1 @ t2)
    \<longrightarrow> (\<exists>topics.
           parseConfig (p @ '','' @ t1 @ '':'' @ s1 @ '','' @ t2) = Some (p, topics)
           \<and> map_of topics = [t1 \<mapsto> [s1], t2 \<mapsto> []]))"
proof (intro conjI impI)
  assume "CHR '','' \<notin> set p \<and> defs \<noteq> [] \<and>
    (\<forall>(t, subs)\<in>set defs. CHR '','' \<notin> set t \<and> CHR '':'' \<notin> set t \<and>
        (\<forall>s\<in>set subs. CHR '','' \<notin> set s \<and> CHR '':'' \<notin> set s))"
  then show "\<exists>topics.
           parseConfig
             (p @ concat (map (\<lambda>(t, subs). CHR '','' # t @ concat (map ((#) (CHR '':'')) subs))
                            defs))
             = Some (p, topics)
           \<and> map_of topics = map_of (rev defs) \<and> distinct (map fst topics)"
    by (intro parseConfig_defs) auto
next
  assume a: "CHR '','' \<notin> set (p @ t1 @ s1 @ t2) \<and> CHR '':'' \<notin> set (t1 @ s1 @ t2)"
  have "\<exists>topics.
           parseConfig
             (p @ concat (map (\<lambda>(t, subs). CHR '','' # t @ concat (map ((#) (CHR '':'')) subs))
                            [(t1, [s1]), (t2, [])]))
             = Some (p, topics)
           \<and> map_of topics = map_of (rev [(t1, [s1]), (t2, [])])
           \<and> distinct (map fst topics)"
    using a by (intro parseConfig_defs) auto
  then show "\<exists>topics.
           parseConfig (p @ '','' @ t1 @ '':'' @ s1 @ '','' @ t2) = Some (p, topics)
           \<and> map_of topics = [t1 \<mapsto> [s1], t2 \<mapsto> []]"
    by (auto simp del: fun_upd_apply)
qed

theorem config_parser_witness:
  "parseConfig ''p,t1:s1,t2'' = Some (''p'', [(''t1'', [''s1'']), (''t2'', [])])
   \<and> (\<exists>topics. parseConfig ''p,t1:s1,t2'' = Some (''p'', topics)
         \<and> map_of topics = [''t1'' \<mapsto> [''s1''], ''t2'' \<mapsto> []])
   \<and> (\<exists>topics. parseConfig ''demo,a:x:y,b'' = Some (''demo'', topics)
         \<and> map_of topics = [''a'' \<mapsto> [''x'', ''y''], ''b'' \<mapsto> []])"
proof -
  have "parseConfig ''p,t1:s1,t2'' = Some (''p'', [(''t1'', [''s1'']), (''t2'', [])])"
    by (simp add: parseConfig_def)
  moreover have "\<exists>topics. parseConfig ''p,t1:s1,t2'' = Some (''p'', topics)
         \<and> map_of topics = [''t1'' \<mapsto> [''s1''], ''t2'' \<mapsto> []]"
    using config_parser [of "''p''" "[]" "''t1''" "''s1''" "''t2''"]
    by simp
  moreover have "\<exists>topics. parseConfig ''demo,a:x:y,b'' = Some (''demo'', topics)
         \<and> map_of topics = [''a'' \<mapsto> [''x'', ''y''], ''b'' \<mapsto> []]"
    using config_parser [of "''demo''" "[(''a'', [''x'', ''y'']), (''b'', [])]" "[]" "[]" "[]"]
    by auto
  ultimately show ?thesis by blast
qed

subsection \<open>The subscription decoder\<close>

lemma decode_one:
  "CHR ''+'' \<notin> set name \<Longrightarrow>
   decodeSubscription name = \<lparr>subscriptionID = TrimSpace name, pushEndpoint = []\<rparr>"
  by (simp add: decodeSubscription_def Split_no_sep)

lemma Split_two:
  assumes "sep \<notin> set a" "sep \<notin> set b" "rest = [] \<or> hd rest = sep"
  shows "\<exists>more. Split (a @ sep # b @ rest) sep = a # b # more"
proof (cases rest)
  case Nil
  with assms show ?thesis by (simp add: Split_append Split_no_sep)
next
  case (Cons c cs)
  with assms have "rest = sep # cs" by auto
  with assms show ?thesis by (simp add: Split_append)
qed

lemma decode_two:
  assumes "CHR ''+'' \<notin> set name" "CHR ''+'' \<notin> set second" "rest = [] \<or> hd rest = CHR ''+''"
  shows "decodeSubscription (name @ ''+'' @ second @ rest) =
          \<lparr>subscriptionID = TrimSpace name,
           pushEndpoint = Replace (TrimSpace second) (CHR ''|'') '':'' 1\<rparr>"
proof -
  obtain more where "Split (name @ CHR ''+'' # second @ rest) (CHR ''+'') = name # second # more"
    using Split_two [OF assms] by blast
  then show ?thesis by (simp add: decodeSubscription_def)
qed

text \<open>
  Claim C3. The decoder splits the token on \<open>+\<close>. The trimmed first part is the
  subscription id. Without \<open>+\<close> the push endpoint is empty. With a second part
  (whatever follows a further \<open>+\<close> is not read), the second part is trimmed and only
  its first \<open>|\<close> becomes \<open>:\<close>: when the trimmed part is \<open>host|port\<close> with no \<open>|\<close> in
  \<open>host\<close>, the endpoint is \<open>host:port\<close> with \<open>port\<close> as it is, and without \<open>|\<close> it is the
  trimmed part. So \<open>name+host|port\<close>, with nothing to trim, gives the id \<open>name\<close> and the
  endpoint \<open>host:port\<close>.
\<close>

theorem subscription_decoder:
  "(CHR ''+'' \<notin> set name \<longrightarrow>
      decodeSubscription name = \<lparr>subscriptionID = TrimSpace name, pushEndpoint = []\<rparr>)
   \<and> (CHR ''+'' \<notin> set name \<and> CHR ''+'' \<notin> set second \<and> (rest = [] \<or> hd rest = CHR ''+'') \<longrightarrow>
      subscriptionID (decodeSubscription (name @ ''+'' @ second @ rest)) = TrimSpace name
      \<and> (CHR ''|'' \<notin> set (TrimSpace second) \<longrightarrow>
           pushEndpoint (decodeSubscription (name @ ''+'' @ second @ rest)) = TrimSpace second)
      \<and> (TrimSpace second = host @ ''|'' @ port \<and> CHR ''|'' \<notin> set host \<longrightarrow>
           pushEndpoint (decodeSubscription (name @ ''+'' @ second @ rest)) = host @ '':'' @ port))
   \<and> (CHR ''+'' \<notin> set (name @ host @ port) \<and> CHR ''|'' \<notin> set host \<and> TrimSpace name = name
        \<and> TrimSpace (host @ ''|'' @ port) = host @ ''|'' @ port \<longrightarrow>
      decodeSubscription (name @ ''+'' @ host @ ''|'' @ port) =
        \<lparr>subscriptionID = name, pushEndpoint = host @ '':'' @ port\<rparr>)"
proof (intro conjI impI)
  assume "CHR ''+'' \<notin> set name"
  then show "decodeSubscription name = \<lparr>subscriptionID = TrimSpace name, pushEndpoint = []\<rparr>"
    by (rule decode_one)
next
  assume a: "CHR ''+'' \<notin> set name \<and> CHR ''+'' \<notin> set second \<and> (rest = [] \<or> hd rest = CHR ''+'')"
  then have d: "decodeSubscription (name @ ''+'' @ second @ rest) =
          \<lparr>subscriptionID = TrimSpace name,
           pushEndpoint = Replace (TrimSpace second) (CHR ''|'') '':'' 1\<rparr>"
    by (intro decode_two) auto
  show "subscriptionID (decodeSubscription (name @ ''+'' @ second @ rest)) = TrimSpace name"
    by (simp only: d subscriptionSpec.simps)
  { assume "CHR ''|'' \<notin> set (TrimSpace second)"
    then show "pushEndpoint (decodeSubscription (name @ ''+'' @ second @ rest)) = TrimSpace second"
      using d by (simp add: Replace_none) }
  { assume "TrimSpace second = host @ ''|'' @ port \<and> CHR ''|'' \<notin> set host"
    then show "pushEndpoint (decodeSubscription (name @ ''+'' @ second @ rest)) = host @ '':'' @ port"
      using d Replace_first [of "CHR ''|''" host port "'':''"]
      by simp }
next
  assume a: "CHR ''+'' \<notin> set (name @ host @ port) \<and> CHR ''|'' \<notin> set host \<and> TrimSpace name = name
        \<and> TrimSpace (host @ ''|'' @ port) = host @ ''|'' @ port"
  then have "decodeSubscription (name @ ''+'' @ (host @ ''|'' @ port) @ []) =
          \<lparr>subscriptionID = TrimSpace name,
           pushEndpoint = Replace (TrimSpace (host @ ''|'' @ port)) (CHR ''|'') '':'' 1\<rparr>"
    by (intro decode_two) auto
  with a show "decodeSubscription (name @ ''+'' @ host @ ''|'' @ port) =
        \<lparr>subscriptionID = name, pushEndpoint = host @ '':'' @ port\<rparr>"
    using Replace_first [of "CHR ''|''" host port "'':''"] by simp
qed

theorem subscription_decoder_witness:
  "decodeSubscription ''name+host|port'' = \<lparr>subscriptionID = ''name'', pushEndpoint = ''host:port''\<rparr>
   \<and> decodeSubscription ''name'' = \<lparr>subscriptionID = ''name'', pushEndpoint = []\<rparr>
   \<and> pushEndpoint (decodeSubscription '' a + h|p|q +x'') = ''h:p|q''
   \<and> subscriptionID (decodeSubscription '' a + h|p|q +x'') = ''a''"
proof -
  have t1: "TrimSpace ''name'' = ''name''" "TrimSpace ''host|port'' = ''host|port''"
    "TrimSpace '' a '' = ''a''" "TrimSpace '' h|p|q '' = ''h|p|q''"
    by (simp_all add: TrimSpace_def TrimRightSpace_def isSpace1_def isSpace2_def isSpace3_def)
  have "decodeSubscription ''name+host|port'' = \<lparr>subscriptionID = ''name'', pushEndpoint = ''host:port''\<rparr>"
    using subscription_decoder [of "''name''" "[]" "[]" "''host''" "''port''"] t1 by simp
  moreover have "decodeSubscription ''name'' = \<lparr>subscriptionID = ''name'', pushEndpoint = []\<rparr>"
    using subscription_decoder [of "''name''" "[]" "[]" "[]" "[]"] t1 by simp
  moreover have "pushEndpoint (decodeSubscription '' a + h|p|q +x'') = ''h:p|q''
     \<and> subscriptionID (decodeSubscription '' a + h|p|q +x'') = ''a''"
    using subscription_decoder [of "'' a ''" "'' h|p|q ''" "''+x''" "''h''" "''p|q''"] t1
    by simp
  ultimately show ?thesis by blast
qed

subsection \<open>The main loop\<close>

lemma mainLoop_empty:
  "Getenv P (currentEnv i) = [] \<Longrightarrow>
   mainLoop P i w = Some (if i = 1 then (1, Usage P w) else (0, w))"
  by (subst mainLoop.simps) simp

lemma mainLoop_step:
  "Getenv P (currentEnv i) \<noteq> [] \<Longrightarrow>
   mainLoop P i w =
     (case project P (currentEnv i) (Getenv P (currentEnv i)) w of
        Exits c w1 \<Rightarrow> Some (c, w1)
      | Returns u w1 \<Rightarrow> mainLoop P (nextIndex i) w1)"
  by (subst mainLoop.simps) (simp add: Let_def)

lemma project_no_topic:
  "length (Split env (CHR '','')) < 2 \<Longrightarrow>
   project P name env w =
     Exits 1 (w\<lparr>stderr := stderr w @
        [Sprintf P (Args0 P @ '': %s: Expected at least 1 topic to be defined'' @ newline) [name]]\<rparr>)"
  by (simp add: project_def parseConfig_def fatalf_def)

lemma currentEnv_1: "currentEnv 1 = ''PUBSUB_PROJECT1''"
  by (simp add: currentEnv_def itoa_def digits.simps)

lemma currentEnv_2: "currentEnv 2 = ''PUBSUB_PROJECT2''"
  by (simp add: currentEnv_def itoa_def digits.simps)

lemma currentEnv_3: "currentEnv 3 = ''PUBSUB_PROJECT3''"
  by (simp add: currentEnv_def itoa_def digits.simps)

lemmas eval_simps =
  parseConfig_def create_def rangeTopics_def displayResult_def listTopics_def
  listSubscriptions_def decodeSubscription_def TrimSpace_def TrimRightSpace_def
  isSpace1_def isSpace2_def isSpace3_def issue_def debugf_def fatalf_def Let_def
  project_def emulator_def flaky_def Getenv_def start_def nextIndex_def main_def
  currentEnv_1 currentEnv_2 currentEnv_3 mainLoop_step mainLoop_empty newCalls_def
  subscriptionCall_def Usage_def

text \<open>
  Claim C2. A variable that is not empty and whose value splits on \<open>,\<close> into fewer than
  two segments (a project id with no topic definition: a value without \<open>,\<close>) ends the
  process with status 1 after one message on standard error; no request is sent to the
  service for it. When it is the first variable and neither \<^verbatim>\<open>-help\<close> nor \<^verbatim>\<open>-version\<close>
  is given, the whole run of \<^verbatim>\<open>main\<close> is this message.
\<close>

theorem no_topic_is_fatal:
  assumes "Getenv P (currentEnv i) = env" and "env \<noteq> []"
    and "length (Split env (CHR '','')) < 2"
  shows "mainLoop P i w =
          Some (1, w\<lparr>stderr := stderr w @
            [Sprintf P (Args0 P @ '': %s: Expected at least 1 topic to be defined'' @ newline)
               [currentEnv i]]\<rparr>)
         \<and> (i = 1 \<and> \<not> help_flag P \<and> \<not> version P \<longrightarrow>
              main P =
                Some (1, \<lparr>calls = [], stdout = [],
                          stderr = [Sprintf P
                            (Args0 P @ '': %s: Expected at least 1 topic to be defined'' @ newline)
                            [''PUBSUB_PROJECT1'']]\<rparr>))
         \<and> CHR '','' \<notin> set env"
proof -
  have loop: "mainLoop P i w =
          Some (1, w\<lparr>stderr := stderr w @
            [Sprintf P (Args0 P @ '': %s: Expected at least 1 topic to be defined'' @ newline)
               [currentEnv i]]\<rparr>)" for w
    using assms by (simp add: mainLoop_step project_no_topic)
  show ?thesis
  proof (intro conjI impI)
    show "mainLoop P i w =
          Some (1, w\<lparr>stderr := stderr w @
            [Sprintf P (Args0 P @ '': %s: Expected at least 1 topic to be defined'' @ newline)
               [currentEnv i]]\<rparr>)"
      by (rule loop)
  next
    assume "i = 1 \<and> \<not> help_flag P \<and> \<not> version P"
    then show "main P =
                Some (1, \<lparr>calls = [], stdout = [],
                          stderr = [Sprintf P
                            (Args0 P @ '': %s: Expected at least 1 topic to be defined'' @ newline)
                            [''PUBSUB_PROJECT1'']]\<rparr>)"
      using loop [of start] by (simp add: main_def start_def currentEnv_1)
  next
    show "CHR '','' \<notin> set env"
      using assms(3) Split_short [of env "CHR '',''"] by blast
  qed
qed

theorem no_topic_is_fatal_witness:
  "Getenv (emulator [''PUBSUB_PROJECT1'' \<mapsto> ''p'']) (currentEnv 1) = ''p''
   \<and> length (Split ''p'' (CHR '','')) < 2
   \<and> main (emulator [''PUBSUB_PROJECT1'' \<mapsto> ''p'']) =
       Some (1, \<lparr>calls = [], stdout = [],
                 stderr = [''pubsubc: %s: Expected at least 1 topic to be defined'' @ newline]\<rparr>)"
proof -
  have g: "Getenv (emulator [''PUBSUB_PROJECT1'' \<mapsto> ''p'']) (currentEnv 1) = ''p''"
    by (simp add: Getenv_def emulator_def currentEnv_1)
  have s: "length (Split ''p'' (CHR '','')) < 2" by simp
  have n: "''p'' \<noteq> []" by simp
  from no_topic_is_fatal [OF g n s, of start] g s show ?thesis
    by (simp add: emulator_def)
qed

text \<open>
  Claim C10. A variable that is set to the empty string is read like one that is not
  set: the loop has the same result with the variable removed from the environment,
  namely the usage text and status 1 at index 1, and the end of the scan with status 0
  at a later index. The value is not parsed.
\<close>

theorem empty_is_unset:
  assumes "environ P (currentEnv i) = Some []"
  shows "mainLoop P i w = mainLoop (P\<lparr>environ := (environ P)(currentEnv i := None)\<rparr>) i w
         \<and> mainLoop P i w = Some (if i = 1 then (1, Usage P w) else (0, w))"
proof -
  let ?Q = "P\<lparr>environ := (environ P)(currentEnv i := None)\<rparr>"
  have "Getenv P (currentEnv i) = []" using assms by (simp add: Getenv_def)
  then have a: "mainLoop P i w = Some (if i = 1 then (1, Usage P w) else (0, w))"
    by (rule mainLoop_empty)
  have "Getenv ?Q (currentEnv i) = []" by (simp add: Getenv_def)
  then have "mainLoop ?Q i w = Some (if i = 1 then (1, Usage ?Q w) else (0, w))"
    by (rule mainLoop_empty)
  then show ?thesis using a by (simp add: Usage_def)
qed

theorem empty_is_unset_witness:
  "environ (emulator [''PUBSUB_PROJECT1'' \<mapsto> ''p,t'', ''PUBSUB_PROJECT2'' \<mapsto> []]) (currentEnv 2)
     = Some []
   \<and> mainLoop (emulator [''PUBSUB_PROJECT1'' \<mapsto> ''p,t'', ''PUBSUB_PROJECT2'' \<mapsto> []]) 2 start
       = Some (0, start)
   \<and> mainLoop (emulator [''PUBSUB_PROJECT1'' \<mapsto> []]) 1 start
       = Some (1, Usage (emulator [''PUBSUB_PROJECT1'' \<mapsto> []]) start)"
proof -
  let ?E = "emulator [''PUBSUB_PROJECT1'' \<mapsto> ''p,t'', ''PUBSUB_PROJECT2'' \<mapsto> []]"
  let ?E1 = "emulator [''PUBSUB_PROJECT1'' \<mapsto> []]"
  have e: "environ ?E (currentEnv 2) = Some []"
    by (simp add: emulator_def currentEnv_2)
  have e1: "environ ?E1 (currentEnv 1) = Some []"
    by (simp add: emulator_def currentEnv_1)
  from empty_is_unset [OF e, of start, THEN conjunct2]
    empty_is_unset [OF e1, of start, THEN conjunct2] e
  show ?thesis by simp
qed

lemma mainLoop_scan:
  assumes "i \<le> k" and "k \<le> 9223372036854775807"
    and "\<forall>j. i \<le> j \<and> j < k \<longrightarrow> Getenv P (currentEnv j) \<noteq> []"
    and "Getenv P (currentEnv k) = []"
  shows "mainLoop P i w =
           Some (case runProjects P [i..k - 1] w of
                   Exits c w1 \<Rightarrow> (c, w1)
                 | Returns u w1 \<Rightarrow> (if k = 1 then (1, Usage P w1) else (0, w1)))"
  using assms
proof (induction "nat (k - i)" arbitrary: i w)
  case 0
  then have "i = k" by simp
  with 0 show ?case by (simp add: mainLoop_empty)
next
  case (Suc n)
  then have lt: "i < k" by linarith
  with Suc.prems have env: "Getenv P (currentEnv i) \<noteq> []" by simp
  from lt Suc.prems have next_i: "nextIndex i = i + 1" by (simp add: nextIndex_def)
  from lt have range: "[i..k - 1] = i # [i + 1..k - 1]" by (simp add: upto_rec1)
  have IH: "mainLoop P (i + 1) w' =
           Some (case runProjects P [i + 1..k - 1] w' of
                   Exits c w1 \<Rightarrow> (c, w1)
                 | Returns u w1 \<Rightarrow> (if k = 1 then (1, Usage P w1) else (0, w1)))" for w'
    using Suc.hyps(2) Suc.prems lt by (intro Suc.hyps(1)) auto
  show ?case
    by (simp add: mainLoop_step [OF env] next_i range IH split: run.splits)
qed

text \<open>
  Claim C9 does not hold as stated: with \<^verbatim>\<open>PUBSUB_PROJECT1=p\<close> and
  \<^verbatim>\<open>PUBSUB_PROJECT2=q,u\<close> the first missing index is 3, but the first project ends the
  process with status 1 and the second is never processed.
\<close>

theorem scan_order_counterexample:
  "Getenv (emulator [''PUBSUB_PROJECT1'' \<mapsto> ''p'', ''PUBSUB_PROJECT2'' \<mapsto> ''q,u''])
      (currentEnv 1) = ''p''
   \<and> Getenv (emulator [''PUBSUB_PROJECT1'' \<mapsto> ''p'', ''PUBSUB_PROJECT2'' \<mapsto> ''q,u''])
      (currentEnv 2) = ''q,u''
   \<and> Getenv (emulator [''PUBSUB_PROJECT1'' \<mapsto> ''p'', ''PUBSUB_PROJECT2'' \<mapsto> ''q,u''])
      (currentEnv 3) = []
   \<and> main (emulator [''PUBSUB_PROJECT1'' \<mapsto> ''p'', ''PUBSUB_PROJECT2'' \<mapsto> ''q,u'']) =
       Some (1,
         \<lparr>calls = [], stdout = [],
          stderr = [''pubsubc: %s: Expected at least 1 topic to be defined'' @ newline]\<rparr>)"
  by (simp add: eval_simps)

text \<open>
  Claim C9, amended. Let \<open>k\<close> be the first index whose variable is missing (the index is
  a Go \<^verbatim>\<open>int\<close>, so \<open>k\<close> is at most \<open>2^63 - 1\<close>). When \<open>k = 1\<close> the loop writes the usage
  line with the name of the program to standard output and the flag defaults to
  standard error, and ends with status 1. Otherwise it processes the variables
  \<open>1, 2, ...\<close> in this order: up to \<open>k - 1\<close> and with status 0 when each of these projects
  returns, and up to the first project that ends the process, with the status of that
  project, otherwise. \<^verbatim>\<open>main\<close> is this loop when neither \<^verbatim>\<open>-help\<close> nor \<^verbatim>\<open>-version\<close> is
  given.
\<close>

theorem scan_order:
  assumes "1 \<le> k" and "k \<le> 9223372036854775807"
    and "\<forall>j. 1 \<le> j \<and> j < k \<longrightarrow> Getenv P (currentEnv j) \<noteq> []"
    and "Getenv P (currentEnv k) = []"
  shows "mainLoop P 1 w =
           Some (if k = 1
                 then (1, w\<lparr>stdout := stdout w @
                            [''Usage: env PUBSUB_PROJECT1='' @ [CHR 0x22]
                               @ ''project1,topic1,topic2:subscription1,topic3:subscription2+enpoint1''
                               @ [CHR 0x22] @ '' '' @ Args0 P @ newline],
                          stderr := stderr w @ [flagDefaults P]\<rparr>)
                 else (case runProjects P [1..k - 1] w of
                         Exits c w1 \<Rightarrow> (c, w1)
                       | Returns u w1 \<Rightarrow> (0, w1)))
         \<and> (\<not> help_flag P \<and> \<not> version P \<longrightarrow> main P = mainLoop P 1 start)"
proof (cases "k = 1")
  case True
  with assms show ?thesis by (simp add: mainLoop_empty main_def Usage_def)
next
  case False
  with mainLoop_scan [OF assms, of w] show ?thesis
    by (simp add: main_def split: run.splits)
qed

theorem scan_order_witness:
  "main (emulator [''PUBSUB_PROJECT1'' \<mapsto> ''p,t'', ''PUBSUB_PROJECT2'' \<mapsto> ''q,u'']) =
     Some (0,
       \<lparr>calls =
          [NewClient ''p'', CreateTopic ''p'' ''t'', Close ''p'', NewClient ''p'',
           ListTopics ''p'', ListSubscriptions ''p'' ''t'', Close ''p'',
           NewClient ''q'', CreateTopic ''q'' ''u'', Close ''q'', NewClient ''q'',
           ListTopics ''q'', ListSubscriptions ''q'' ''u'', Close ''q''],
        stdout = [], stderr = []\<rparr>)
   \<and> main (emulator Map.empty) =
       Some (1,
         \<lparr>calls = [],
          stdout = [''Usage: env PUBSUB_PROJECT1='' @ [CHR 0x22]
                      @ ''project1,topic1,topic2:subscription1,topic3:subscription2+enpoint1''
                      @ [CHR 0x22] @ '' pubsubc'' @ newline],
          stderr = [[]]\<rparr>)"
proof -
  let ?E = "emulator [''PUBSUB_PROJECT1'' \<mapsto> ''p,t'', ''PUBSUB_PROJECT2'' \<mapsto> ''q,u'']"
  have present: "\<forall>j. 1 \<le> j \<and> j < 3 \<longrightarrow> Getenv ?E (currentEnv j) \<noteq> []"
  proof (intro allI impI)
    fix j :: int
    assume "1 \<le> j \<and> j < 3"
    then have "j = 1 \<or> j = 2" by auto
    then show "Getenv ?E (currentEnv j) \<noteq> []"
      by (auto simp: Getenv_def emulator_def currentEnv_1 currentEnv_2)
  qed
  have unset: "Getenv ?E (currentEnv 3) = []"
    by (simp add: Getenv_def emulator_def currentEnv_3)
  have run: "runProjects ?E [1..2] start =
     Returns ()
       \<lparr>calls =
          [NewClient ''p'', CreateTopic ''p'' ''t'', Close ''p'', NewClient ''p'',
           ListTopics ''p'', ListSubscriptions ''p'' ''t'', Close ''p'',
           NewClient ''q'', CreateTopic ''q'' ''u'', Close ''q'', NewClient ''q'',
           ListTopics ''q'', ListSubscriptions ''q'' ''u'', Close ''q''],
        stdout = [], stderr = []\<rparr>"
    by (simp add: eval_simps upto_rec1 del: mainLoop_step mainLoop_empty)
  have flags: "\<not> help_flag ?E \<and> \<not> version ?E" by (simp add: emulator_def)
  have a: "main ?E =
     Some (0,
       \<lparr>calls =
          [NewClient ''p'', CreateTopic ''p'' ''t'', Close ''p'', NewClient ''p'',
           ListTopics ''p'', ListSubscriptions ''p'' ''t'', Close ''p'',
           NewClient ''q'', CreateTopic ''q'' ''u'', Close ''q'', NewClient ''q'',
           ListTopics ''q'', ListSubscriptions ''q'' ''u'', Close ''q''],
        stdout = [], stderr = []\<rparr>)"
    using scan_order [of 3 ?E start, OF _ _ present unset] flags by (simp add: run)
  have none: "\<forall>j. 1 \<le> j \<and> j < (1::int) \<longrightarrow> Getenv (emulator Map.empty) (currentEnv j) \<noteq> []"
    by auto
  have "Getenv (emulator Map.empty) (currentEnv 1) = []"
    by (simp add: Getenv_def emulator_def)
  from scan_order [of 1 "emulator Map.empty" start, OF _ _ none this]
  have "main (emulator Map.empty) =
       Some (1,
         \<lparr>calls = [],
          stdout = [''Usage: env PUBSUB_PROJECT1='' @ [CHR 0x22]
                      @ ''project1,topic1,topic2:subscription1,topic3:subscription2+enpoint1''
                      @ [CHR 0x22] @ '' pubsubc'' @ newline],
          stderr = [[]]\<rparr>)"
    by (simp add: emulator_def start_def)
  with a show ?thesis by simp
qed

subsection \<open>The requests of the provisioner\<close>

lemma noFailure_append:
  "noFailure P h (a @ b) = (noFailure P h a \<and> noFailure P (h @ a) b)"
  by (induction a arbitrary: h) auto

lemma issued_append:
  "issued P h (a @ b) = (if noFailure P h a then a @ issued P (h @ a) b else issued P h a)"
  by (induction a arbitrary: h) auto

lemma issued_all: "noFailure P h cs \<Longrightarrow> issued P h cs = cs"
  by (induction cs arbitrary: h) auto

lemma issued_prefix: "prefix (issued P h cs) cs"
  by (induction cs arbitrary: h) auto

lemma issued_stops:
  "\<not> noFailure P h cs \<Longrightarrow>
   \<exists>pre c. issued P h cs = pre @ [c] \<and> noFailure P h pre \<and> failed P (h @ pre) c"
proof (induction cs arbitrary: h)
  case Nil
  then show ?case by simp
next
  case (Cons a cs)
  show ?case
  proof (cases "failed P h a")
    case True
    then have "issued P h (a # cs) = [] @ [a] \<and> noFailure P h [] \<and> failed P (h @ []) a"
      by simp
    then show ?thesis by blast
  next
    case False
    with Cons.prems have "\<not> noFailure P (h @ [a]) cs" by simp
    from Cons.IH [OF this] obtain pre c where
      "issued P (h @ [a]) cs = pre @ [c]" "noFailure P (h @ [a]) pre" "failed P ((h @ [a]) @ pre) c"
      by blast
    with False have "issued P h (a # cs) = (a # pre) @ [c] \<and> noFailure P h (a # pre)
        \<and> failed P (h @ (a # pre)) c"
      by simp
    then show ?thesis by blast
  qed
qed

lemma noFailure_butlast: "noFailure P h cs \<Longrightarrow> noFailure P h (butlast cs)"
proof (cases "cs = []")
  case True
  then show ?thesis by simp
next
  case False
  assume "noFailure P h cs"
  then have "noFailure P h (butlast cs @ [last cs])" using False by simp
  then show ?thesis by (simp only: noFailure_append)
qed

lemma issued_shape:
  "issued P h cs = take (length (issued P h cs)) cs
   \<and> noFailure P h (butlast (issued P h cs))
   \<and> (noFailure P h cs \<longrightarrow> issued P h cs = cs)
   \<and> (\<not> noFailure P h cs \<longrightarrow>
        issued P h cs \<noteq> [] \<and> failed P (h @ butlast (issued P h cs)) (last (issued P h cs)))"
proof -
  have "prefix (issued P h cs) cs" by (rule issued_prefix)
  then have a: "issued P h cs = take (length (issued P h cs)) cs"
    by (metis append_eq_conv_conj prefix_def)
  show ?thesis
  proof (cases "noFailure P h cs")
    case True
    then have "issued P h cs = cs" by (rule issued_all)
    with True show ?thesis by (simp add: noFailure_butlast)
  next
    case False
    from issued_stops [OF this] obtain pre c where
      i: "issued P h cs = pre @ [c]" and pre: "noFailure P h pre" and c: "failed P (h @ pre) c"
      by blast
    have "noFailure P h (butlast (issued P h cs))" using pre by (simp add: i)
    moreover have "issued P h cs \<noteq> []" by (simp add: i)
    moreover have "failed P (h @ butlast (issued P h cs)) (last (issued P h cs))"
      using c by (simp add: i)
    ultimately show ?thesis using a False by blast
  qed
qed

lemma calls_debugf [simp]: "calls (debugf P f ps w) = calls w"
  by (simp add: debugf_def)

lemma stderr_debugf [simp]: "stderr (debugf P f ps w) = stderr w"
  by (simp add: debugf_def)

lemma calls_issue [simp]: "calls (issue c w) = calls w @ [c]"
  by (simp add: issue_def)

lemma stderr_issue [simp]: "stderr (issue c w) = stderr w"
  by (simp add: issue_def)

lemma stdout_issue [simp]: "stdout (issue c w) = stdout w"
  by (simp add: issue_def)

lemma createSubscriptions_trace:
  "createSubscriptions P p t subs w = (r, w') \<Longrightarrow>
   calls w' = calls w @ issued P (calls w) (map (subscriptionCall p t) subs)
   \<and> stderr w' = stderr w
   \<and> (r = None) = noFailure P (calls w) (map (subscriptionCall p t) subs)"
proof (induction subs arbitrary: w)
  case Nil
  then show ?case by auto
next
  case (Cons s subs)
  let ?c = "subscriptionCall p t s"
  show ?case
  proof (cases "failed P (calls w) ?c")
    case True
    with Cons.prems show ?thesis
      by (auto simp: subscriptionCall_def Let_def split: if_splits option.splits)
  next
    case False
    then obtain w1 where w1: "createSubscriptions P p t subs w1 = (r, w')"
      "calls w1 = calls w @ [?c]" "stderr w1 = stderr w"
      using Cons.prems
      by (auto simp: subscriptionCall_def Let_def split: if_splits option.splits)
    from Cons.IH [OF w1(1)] w1(2,3) False show ?thesis by simp
  qed
qed

lemma createTopics_trace:
  "createTopics P p entries w = (r, w') \<Longrightarrow>
   calls w' = calls w @ issued P (calls w) (plan p entries)
   \<and> stderr w' = stderr w
   \<and> (r = None) = noFailure P (calls w) (plan p entries)"
proof (induction entries arbitrary: w)
  case Nil
  then show ?case by (auto simp: plan_def)
next
  case (Cons e entries)
  obtain t subs where e: "e = (t, subs)" by (cases e)
  let ?w2 = "issue (CreateTopic p t) (debugf P ''  Creating topic %q'' [t] w)"
  let ?sc = "map (subscriptionCall p t) subs"
  have pl: "plan p ((t, subs) # entries) = CreateTopic p t # ?sc @ plan p entries"
    by (simp add: plan_def)
  show ?case
  proof (cases "failed P (calls w) (CreateTopic p t)")
    case True
    with Cons.prems show ?thesis
      by (auto simp: e pl Let_def split: option.splits)
  next
    case False
    obtain r3 w3 where cs: "createSubscriptions P p t subs ?w2 = (r3, w3)"
      by (cases "createSubscriptions P p t subs ?w2")
    note tr = createSubscriptions_trace [OF cs]
    show ?thesis
    proof (cases r3)
      case None
      with Cons.prems False cs e have "createTopics P p entries w3 = (r, w')"
        by (auto simp: Let_def split: option.splits)
      from Cons.IH [OF this] tr None False show ?thesis
        by (simp add: e pl issued_append noFailure_append issued_all)
    next
      case (Some err)
      with Cons.prems False cs e have "r = Some err" "w' = w3"
        by (auto simp: Let_def split: option.splits)
      with tr Some False show ?thesis
        by (simp add: e pl issued_append noFailure_append)
    qed
  qed
qed

lemma create_trace:
  "create P p topics w = (r, w') \<Longrightarrow>
   calls w' = calls w @ issued P (calls w) (NewClient p # plan p (rangeTopics P topics))
                @ (if failed P (calls w) (NewClient p) then [] else [Close p])
   \<and> stderr w' = stderr w
   \<and> (r = None) = noFailure P (calls w) (NewClient p # plan p (rangeTopics P topics))"
proof (cases "failed P (calls w) (NewClient p)")
  case True
  assume "create P p topics w = (r, w')"
  with True show ?thesis by (auto simp: create_def split: option.splits)
next
  case False
  assume a: "create P p topics w = (r, w')"
  let ?w1 = "debugf P ''Client connected with project ID %q'' [p] (issue (NewClient p) w)"
  obtain r2 w2 where ct: "createTopics P p (rangeTopics P topics) ?w1 = (r2, w2)"
    by (cases "createTopics P p (rangeTopics P topics) ?w1")
  from a False ct have "r = r2" "w' = issue (Close p) w2"
    by (auto simp: create_def Let_def split: option.splits)
  with createTopics_trace [OF ct] False show ?thesis by simp
qed

lemma isCreate_plan: "\<forall>c\<in>set (plan p entries). isCreate c"
  by (auto simp: plan_def subscriptionCall_def)

lemma rangeTopics_entries:
  "set (rangeTopics P topics) = set topics \<and> length (rangeTopics P topics) = length topics
   \<and> distinct (map fst (rangeTopics P topics)) = distinct (map fst topics)"
  by (simp add: rangeTopics_def distinct_map)

text \<open>Every order of the entries of a map is the order of the range for some rank.\<close>

lemma position_map:
  "distinct ks \<Longrightarrow> map (\<lambda>k. length (takeWhile (\<lambda>x. x \<noteq> k) ks)) ks = [0..<length ks]"
proof (induction ks)
  case Nil
  then show ?case by simp
next
  case (Cons a ks)
  then have "\<forall>k\<in>set ks. length (takeWhile (\<lambda>x. x \<noteq> k) (a # ks))
                         = Suc (length (takeWhile (\<lambda>x. x \<noteq> k) ks))"
    by auto
  then have "map (\<lambda>k. length (takeWhile (\<lambda>x. x \<noteq> k) (a # ks))) ks
             = map Suc (map (\<lambda>k. length (takeWhile (\<lambda>x. x \<noteq> k) ks)) ks)"
    by (simp del: takeWhile.simps)
  with Cons show ?case
    by (simp add: map_Suc_upt upt_conv_Cons del: upt_Suc)
qed

lemma rangeTopics_any_order:
  assumes "distinct (map fst ys)" and "set ys = set topics" and "distinct (map fst topics)"
  shows "rangeTopics
           (P\<lparr>mapRank := (\<lambda>t k. length (takeWhile (\<lambda>x. x \<noteq> k) (map fst ys)))\<rparr>) topics = ys"
proof -
  let ?r = "\<lambda>k. length (takeWhile (\<lambda>x. x \<noteq> k) (map fst ys))"
  let ?f = "\<lambda>e. ?r (fst e)"
  have pos: "map ?f ys = [0..<length ys]"
    using position_map [OF assms(1)] by (simp add: comp_def)
  have inj_ys: "inj_on ?f (set ys)"
  proof -
    have "distinct (map ?f ys)" by (simp only: pos distinct_upt)
    then show ?thesis by (simp add: distinct_map)
  qed
  have dy: "distinct ys" using assms(1) by (simp add: distinct_map)
  have dt: "distinct topics" using assms(3) by (simp add: distinct_map)
  have "map ?f (sort_key ?f topics) = map ?f ys"
  proof (rule sorted_distinct_set_unique)
    show "sorted (map ?f (sort_key ?f topics))" by (rule sorted_sort_key)
    show "distinct (map ?f (sort_key ?f topics))"
      using inj_ys dt assms(2) by (simp add: distinct_map)
    show "sorted (map ?f ys)" by (simp only: pos sorted_upt)
    show "distinct (map ?f ys)" by (simp only: pos distinct_upt)
    show "set (map ?f (sort_key ?f topics)) = set (map ?f ys)"
      using assms(2) by simp
  qed
  then have "sort_key ?f topics = ys"
    using inj_ys assms(2) by (intro inj_on_map_eq_map [THEN iffD1, of ?f]) auto
  then show ?thesis by (simp add: rangeTopics_def)
qed

text \<open>
  Claim C4. The loop over the subscription tokens of a topic sends one
  \<^verbatim>\<open>CreateSubscription\<close> request for each token it reaches, in the order of the tokens:
  the request of \<open>subscriptionCall\<close>, a push subscription to \<^verbatim>\<open>http://\<close> followed by the
  decoded endpoint when that is not empty and a pull subscription otherwise. It reaches
  every token when it returns no error; otherwise the last request is the one that
  failed, and every request before it succeeded.
\<close>

theorem one_call_per_subscription:
  assumes "createSubscriptions P p t subs w = (r, w')"
  shows "prefix (calls w) (calls w')
         \<and> newCalls w w' = map (subscriptionCall p t) (take (length (newCalls w w')) subs)
         \<and> length (newCalls w w') \<le> length subs
         \<and> noFailure P (calls w) (butlast (newCalls w w'))
         \<and> (r = None \<longrightarrow> length (newCalls w w') = length subs)
         \<and> (r \<noteq> None \<longrightarrow>
              newCalls w w' \<noteq> []
              \<and> failed P (calls w @ butlast (newCalls w w')) (last (newCalls w w')))"
proof -
  let ?cs = "map (subscriptionCall p t) subs"
  from createSubscriptions_trace [OF assms]
  have tr: "calls w' = calls w @ issued P (calls w) ?cs" "(r = None) = noFailure P (calls w) ?cs"
    by simp_all
  then have n: "newCalls w w' = issued P (calls w) ?cs" by (simp add: newCalls_def)
  note sh = issued_shape [of P "calls w" ?cs]
  from sh have "issued P (calls w) ?cs = map (subscriptionCall p t) (take (length (issued P (calls w) ?cs)) subs)"
    by (simp add: take_map)
  moreover have "length (issued P (calls w) ?cs) \<le> length subs"
    using issued_prefix [of P "calls w" ?cs] by (auto dest: prefix_length_le)
  moreover have "r = None \<longrightarrow> length (issued P (calls w) ?cs) = length subs"
    using sh tr(2) by auto
  ultimately show ?thesis using sh tr by (simp add: n)
qed

theorem one_call_per_subscription_witness:
  "createSubscriptions (emulator Map.empty) ''demo'' ''orders''
      [''billing'', ''shipping+svc|8080''] start =
     (None, \<lparr>calls =
        [CreateSubscription ''demo'' ''billing''
           \<lparr>Topic = ''orders'', PushConfig = \<lparr>Endpoint = []\<rparr>\<rparr>,
         CreateSubscription ''demo'' ''shipping''
           \<lparr>Topic = ''orders'', PushConfig = \<lparr>Endpoint = ''http://svc:8080''\<rparr>\<rparr>],
        stdout = [], stderr = []\<rparr>)
   \<and> map (subscriptionCall ''demo'' ''orders'') [''billing'', ''shipping+svc|8080''] =
       [CreateSubscription ''demo'' ''billing''
           \<lparr>Topic = ''orders'', PushConfig = \<lparr>Endpoint = []\<rparr>\<rparr>,
         CreateSubscription ''demo'' ''shipping''
           \<lparr>Topic = ''orders'', PushConfig = \<lparr>Endpoint = ''http://svc:8080''\<rparr>\<rparr>]"
proof -
  have run: "createSubscriptions (emulator Map.empty) ''demo'' ''orders''
      [''billing'', ''shipping+svc|8080''] start =
     (None, \<lparr>calls =
        [CreateSubscription ''demo'' ''billing''
           \<lparr>Topic = ''orders'', PushConfig = \<lparr>Endpoint = []\<rparr>\<rparr>,
         CreateSubscription ''demo'' ''shipping''
           \<lparr>Topic = ''orders'', PushConfig = \<lparr>Endpoint = ''http://svc:8080''\<rparr>\<rparr>],
        stdout = [], stderr = []\<rparr>)"
    by (simp add: eval_simps)
  from one_call_per_subscription [OF run] run show ?thesis
    by (simp add: newCalls_def start_def)
qed

text \<open>
  Claim C8. \<^verbatim>\<open>create\<close> returns an error exactly when the connection or one of the
  creation requests fails. Then it has sent nothing but: the connection request alone
  when that failed; otherwise the connection request, creation requests \<open>made\<close> that all
  succeeded, the creation request \<open>c\<close> that failed, and the deferred \<^verbatim>\<open>Close\<close>. The
  creation requests are the beginning of the plan, so the rest of the plan is not sent,
  and no request follows that would undo \<open>made\<close>.
\<close>

theorem failure_keeps_created:
  assumes "create P p topics w = (r, w')"
  shows "(r \<noteq> None) = (\<not> noFailure P (calls w) (NewClient p # plan p (rangeTopics P topics)))
         \<and> prefix (calls w) (calls w')
         \<and> (r \<noteq> None \<longrightarrow>
              (if failed P (calls w) (NewClient p) then newCalls w w' = [NewClient p]
               else (\<exists>made c. newCalls w w' = NewClient p # made @ [c, Close p]
                      \<and> prefix (made @ [c]) (plan p (rangeTopics P topics))
                      \<and> (\<forall>x\<in>set (made @ [c]). isCreate x)
                      \<and> noFailure P (calls w @ [NewClient p]) made
                      \<and> failed P (calls w @ NewClient p # made) c)))"
proof -
  let ?pl = "plan p (rangeTopics P topics)"
  from create_trace [OF assms]
  have tr: "calls w' = calls w @ issued P (calls w) (NewClient p # ?pl)
                @ (if failed P (calls w) (NewClient p) then [] else [Close p])"
    "(r = None) = noFailure P (calls w) (NewClient p # ?pl)"
    by simp_all
  have shape: "if failed P (calls w) (NewClient p) then newCalls w w' = [NewClient p]
               else (\<exists>made c. newCalls w w' = NewClient p # made @ [c, Close p]
                      \<and> prefix (made @ [c]) ?pl
                      \<and> (\<forall>x\<in>set (made @ [c]). isCreate x)
                      \<and> noFailure P (calls w @ [NewClient p]) made
                      \<and> failed P (calls w @ NewClient p # made) c)" if "r \<noteq> None"
  proof (cases "failed P (calls w) (NewClient p)")
    case True
    with tr show ?thesis by (simp add: newCalls_def)
  next
    case False
    with tr(2) that have nf: "\<not> noFailure P (calls w @ [NewClient p]) ?pl" by simp
    from issued_stops [OF nf] obtain made c where
      i: "issued P (calls w @ [NewClient p]) ?pl = made @ [c]"
      "noFailure P (calls w @ [NewClient p]) made" "failed P ((calls w @ [NewClient p]) @ made) c"
      by blast
    have "prefix (made @ [c]) ?pl"
      using issued_prefix [of P "calls w @ [NewClient p]" ?pl] i(1) by simp
    moreover from this have "\<forall>x\<in>set (made @ [c]). isCreate x"
      using isCreate_plan [of p "rangeTopics P topics"] by (auto dest!: set_mono_prefix)
    moreover have "newCalls w w' = NewClient p # made @ [c, Close p]"
      using tr(1) False i(1) by (simp add: newCalls_def)
    ultimately show ?thesis using False i(2,3) by auto
  qed
  show ?thesis
  proof (intro conjI impI)
    show "(r \<noteq> None) = (\<not> noFailure P (calls w) (NewClient p # ?pl))"
      using tr(2) by (simp del: noFailure.simps)
    show "prefix (calls w) (calls w')"
      using tr(1) by simp
    assume "r \<noteq> None"
    then show "if failed P (calls w) (NewClient p) then newCalls w w' = [NewClient p]
               else (\<exists>made c. newCalls w w' = NewClient p # made @ [c, Close p]
                      \<and> prefix (made @ [c]) ?pl
                      \<and> (\<forall>x\<in>set (made @ [c]). isCreate x)
                      \<and> noFailure P (calls w @ [NewClient p]) made
                      \<and> failed P (calls w @ NewClient p # made) c)"
      by (rule shape)
  qed
qed

theorem failure_keeps_created_witness:
  "create (emulator Map.empty) ''p'' [(''t'', [''a'', ''a'', ''b''])] start =
     (Some ''Unable to create subscription %q on topic %q for project %q: %s'',
      \<lparr>calls =
         [NewClient ''p'', CreateTopic ''p'' ''t'',
          CreateSubscription ''p'' ''a'' \<lparr>Topic = ''t'', PushConfig = \<lparr>Endpoint = []\<rparr>\<rparr>,
          CreateSubscription ''p'' ''a'' \<lparr>Topic = ''t'', PushConfig = \<lparr>Endpoint = []\<rparr>\<rparr>,
          Close ''p''],
       stdout = [], stderr = []\<rparr>)
   \<and> \<not> failed (emulator Map.empty) [] (NewClient ''p'')
   \<and> (\<exists>made c.
         [NewClient ''p'', CreateTopic ''p'' ''t'',
          CreateSubscription ''p'' ''a'' \<lparr>Topic = ''t'', PushConfig = \<lparr>Endpoint = []\<rparr>\<rparr>,
          CreateSubscription ''p'' ''a'' \<lparr>Topic = ''t'', PushConfig = \<lparr>Endpoint = []\<rparr>\<rparr>,
          Close ''p''] = NewClient ''p'' # made @ [c, Close ''p'']
         \<and> noFailure (emulator Map.empty) [NewClient ''p''] made
         \<and> failed (emulator Map.empty) (NewClient ''p'' # made) c)"
proof -
  have run: "create (emulator Map.empty) ''p'' [(''t'', [''a'', ''a'', ''b''])] start =
     (Some ''Unable to create subscription %q on topic %q for project %q: %s'',
      \<lparr>calls =
         [NewClient ''p'', CreateTopic ''p'' ''t'',
          CreateSubscription ''p'' ''a'' \<lparr>Topic = ''t'', PushConfig = \<lparr>Endpoint = []\<rparr>\<rparr>,
          CreateSubscription ''p'' ''a'' \<lparr>Topic = ''t'', PushConfig = \<lparr>Endpoint = []\<rparr>\<rparr>,
          Close ''p''],
       stdout = [], stderr = []\<rparr>)"
    by (simp add: eval_simps)
  have ok: "\<not> failed (emulator Map.empty) [] (NewClient ''p'')"
    by (simp add: emulator_def)
  from failure_keeps_created [OF run] ok run show ?thesis
    by (simp add: newCalls_def start_def)
qed

text \<open>
  Claim C5 does not hold as stated: for the value
  \<^verbatim>\<open>demo,orders:billing,orders:shipping+svc|8080\<close> no subscription \<^verbatim>\<open>billing\<close> is requested.
  The whole run against the example service:
\<close>

theorem repeated_topic_counterexample:
  "main (emulator [''PUBSUB_PROJECT1'' \<mapsto> ''demo,orders:billing,orders:shipping+svc|8080'']) =
     Some (0,
       \<lparr>calls =
          [NewClient ''demo'', CreateTopic ''demo'' ''orders'',
           CreateSubscription ''demo'' ''shipping''
             \<lparr>Topic = ''orders'', PushConfig = \<lparr>Endpoint = ''http://svc:8080''\<rparr>\<rparr>,
           Close ''demo'', NewClient ''demo'', ListTopics ''demo'',
           ListSubscriptions ''demo'' ''orders'', GetConfig ''demo'' ''shipping'',
           Close ''demo''],
        stdout = [''  Subscription: shipping - Endpoint: http://svc:8080'' @ newline],
        stderr = []\<rparr>)"
  by (simp add: eval_simps)

text \<open>
  Claim C5, amended. For this value the parser keeps one entry for the topic
  \<^verbatim>\<open>orders\<close>, with the tokens of its last definition. Whatever the service answers,
  \<^verbatim>\<open>create\<close> sends the connection request, the request for the topic \<^verbatim>\<open>orders\<close> and the
  request for the push subscription \<^verbatim>\<open>shipping\<close> to \<^verbatim>\<open>http://svc:8080\<close>, up to the first
  that fails, and \<^verbatim>\<open>Close\<close> when the client was made: no request for \<^verbatim>\<open>billing\<close>.
\<close>

theorem repeated_topic_replaces:
  "parseConfig ''demo,orders:billing,orders:shipping+svc|8080''
     = Some (''demo'', [(''orders'', [''shipping+svc|8080''])])
   \<and> (create P ''demo'' [(''orders'', [''shipping+svc|8080''])] w = (r, w') \<longrightarrow>
        prefix (calls w) (calls w') \<and>
        newCalls w w' =
          issued P (calls w)
            [NewClient ''demo'', CreateTopic ''demo'' ''orders'',
             CreateSubscription ''demo'' ''shipping''
               \<lparr>Topic = ''orders'', PushConfig = \<lparr>Endpoint = ''http://svc:8080''\<rparr>\<rparr>]
          @ (if failed P (calls w) (NewClient ''demo'') then [] else [Close ''demo'']))"
proof (intro conjI impI)
  show "parseConfig ''demo,orders:billing,orders:shipping+svc|8080''
     = Some (''demo'', [(''orders'', [''shipping+svc|8080''])])"
    by (simp add: parseConfig_def)
next
  assume a: "create P ''demo'' [(''orders'', [''shipping+svc|8080''])] w = (r, w')"
  have d: "subscriptionCall ''demo'' ''orders'' ''shipping+svc|8080'' =
             CreateSubscription ''demo'' ''shipping''
               \<lparr>Topic = ''orders'', PushConfig = \<lparr>Endpoint = ''http://svc:8080''\<rparr>\<rparr>"
    by (simp add: subscriptionCall_def decodeSubscription_def TrimSpace_def TrimRightSpace_def
          isSpace1_def isSpace2_def isSpace3_def)
  have pl: "plan ''demo'' (rangeTopics P [(''orders'', [''shipping+svc|8080''])]) =
          [CreateTopic ''demo'' ''orders'',
           CreateSubscription ''demo'' ''shipping''
               \<lparr>Topic = ''orders'', PushConfig = \<lparr>Endpoint = ''http://svc:8080''\<rparr>\<rparr>]"
    by (simp add: plan_def rangeTopics_def d)
  from create_trace [OF a] show "prefix (calls w) (calls w')"
    by simp
  from create_trace [OF a] show "newCalls w w' =
          issued P (calls w)
            [NewClient ''demo'', CreateTopic ''demo'' ''orders'',
             CreateSubscription ''demo'' ''shipping''
               \<lparr>Topic = ''orders'', PushConfig = \<lparr>Endpoint = ''http://svc:8080''\<rparr>\<rparr>]
          @ (if failed P (calls w) (NewClient ''demo'') then [] else [Close ''demo''])"
    by (simp only: pl newCalls_def) simp
qed

theorem repeated_topic_replaces_witness:
  "create (emulator Map.empty) ''demo'' [(''orders'', [''shipping+svc|8080''])] start =
     (None,
       \<lparr>calls =
          [NewClient ''demo'', CreateTopic ''demo'' ''orders'',
           CreateSubscription ''demo'' ''shipping''
             \<lparr>Topic = ''orders'', PushConfig = \<lparr>Endpoint = ''http://svc:8080''\<rparr>\<rparr>,
           Close ''demo''],
        stdout = [], stderr = []\<rparr>)
   \<and> issued (emulator Map.empty) []
        [NewClient ''demo'', CreateTopic ''demo'' ''orders'',
         CreateSubscription ''demo'' ''shipping''
           \<lparr>Topic = ''orders'', PushConfig = \<lparr>Endpoint = ''http://svc:8080''\<rparr>\<rparr>]
       = [NewClient ''demo'', CreateTopic ''demo'' ''orders'',
          CreateSubscription ''demo'' ''shipping''
            \<lparr>Topic = ''orders'', PushConfig = \<lparr>Endpoint = ''http://svc:8080''\<rparr>\<rparr>]"
proof -
  have run: "create (emulator Map.empty) ''demo'' [(''orders'', [''shipping+svc|8080''])] start =
     (None,
       \<lparr>calls =
          [NewClient ''demo'', CreateTopic ''demo'' ''orders'',
           CreateSubscription ''demo'' ''shipping''
             \<lparr>Topic = ''orders'', PushConfig = \<lparr>Endpoint = ''http://svc:8080''\<rparr>\<rparr>,
           Close ''demo''],
        stdout = [], stderr = []\<rparr>)"
    by (simp add: eval_simps)
  have ok: "\<not> failed (emulator Map.empty) [] (NewClient ''demo'')"
    by (simp add: emulator_def)
  from repeated_topic_replaces [where P = "emulator Map.empty" and w = start and r = None
      and w' = "\<lparr>calls =
          [NewClient ''demo'', CreateTopic ''demo'' ''orders'',
           CreateSubscription ''demo'' ''shipping''
             \<lparr>Topic = ''orders'', PushConfig = \<lparr>Endpoint = ''http://svc:8080''\<rparr>\<rparr>,
           Close ''demo''],
        stdout = [], stderr = []\<rparr>"] run ok
  show ?thesis
    by (simp add: newCalls_def start_def emulator_def)
qed

subsection \<open>Errors and the end of the process\<close>





















subsection \<open>The lines of the result reporter\<close>

text \<open>When no request for a configuration fails and \<^verbatim>\<open>-debug\<close> is off, the loops over
  the \<open>n\<close> subscriptions of a topic print \<open>n * n\<close> lines: each pass of the outer loop
  prints the line of every subscription.\<close>

lemma printSubscriptions_lines:
  "printSubscriptions P p subs w = Returns u w' \<Longrightarrow>
   length (stdout w') = length (stdout w) + length subs"
proof (induction subs arbitrary: w)
  case Nil
  then show ?case by simp
next
  case (Cons s subs)
  then show ?case
    by (cases "subscriptionConfig P (calls w) p s") (auto simp: fatalf_def dest!: Cons.IH)
qed

lemma eachSubscription_lines:
  "\<not> debug P \<Longrightarrow> eachSubscription P p subs rest w = Returns u w' \<Longrightarrow>
   length (stdout w') = length (stdout w) + length rest * length subs"
proof (induction rest arbitrary: w)
  case Nil
  then show ?case by simp
next
  case (Cons s rest)
  from Cons.prems obtain w1 where
    p: "printSubscriptions P p subs w = Returns () w1"
    and e: "eachSubscription P p subs rest w1 = Returns u w'"
    by (cases "printSubscriptions P p subs w") (auto simp: debugf_def)
  from printSubscriptions_lines [OF p] Cons.IH [OF Cons.prems(1) e] show ?case
    by simp
qed

text \<open>
  Claim C7, on the code: for \<^verbatim>\<open>PUBSUB_PROJECT1=p,t:a:b\<close> against the example service
  the reporter fetches the configuration of each of the two subscriptions of \<open>t\<close> twice
  and prints four lines, the lines of \<open>a\<close> and \<open>b\<close> twice.
\<close>

theorem subscriptions_printed_twice:
  "main (emulator [''PUBSUB_PROJECT1'' \<mapsto> ''p,t:a:b'']) =
     Some (0,
       \<lparr>calls =
          [NewClient ''p'', CreateTopic ''p'' ''t'',
           CreateSubscription ''p'' ''a'' \<lparr>Topic = ''t'', PushConfig = \<lparr>Endpoint = []\<rparr>\<rparr>,
           CreateSubscription ''p'' ''b'' \<lparr>Topic = ''t'', PushConfig = \<lparr>Endpoint = []\<rparr>\<rparr>,
           Close ''p'', NewClient ''p'', ListTopics ''p'', ListSubscriptions ''p'' ''t'',
           GetConfig ''p'' ''a'', GetConfig ''p'' ''b'', GetConfig ''p'' ''a'',
           GetConfig ''p'' ''b'', Close ''p''],
        stdout =
          [''  Subscription: a - Endpoint: '' @ newline,
           ''  Subscription: b - Endpoint: '' @ newline,
           ''  Subscription: a - Endpoint: '' @ newline,
           ''  Subscription: b - Endpoint: '' @ newline],
        stderr = []\<rparr>)"
  by (simp add: eval_simps)

end
